theory Spec2Isabelle
  imports Complex_Main "HOL-Library.Multiset"
begin

section \<open>The DVS simulator of \<^verbatim>\<open>dvs_simulator.py\<close>\<close>

text \<open>
  The simulator turns a sequence of log-intensity frames into per-pixel threshold
  crossing events. The embedding below follows \<^verbatim>\<open>class DvsSimulator\<close> and the
  event publishing block of the driver loop.

  Numbers. Python floats and numpy scalars are modelled by \<^typ>\<open>real\<close>: addition,
  multiplication, division and comparison are exact. Rounding, NaN and infinities are
  therefore outside the model; every statement below is a statement about the
  algorithm in exact arithmetic.
\<close>

subsection \<open>Data\<close>

text \<open>Python exceptions that the modelled code can raise.\<close>

datatype error = AssertionError | IndexError

text \<open>
  A two-dimensional numpy array: its \<^verbatim>\<open>shape\<close> (rows, columns) and its elements,
  addressed as \<^verbatim>\<open>a[v, u]\<close> (row \<open>v\<close>, column \<open>u\<close>). numpy raises
  \<^verbatim>\<open>IndexError\<close> for an index outside the shape; the loops of the simulator only
  produce non-negative indices.
\<close>

record ndarray =
  shape :: "nat \<times> nat"
  elems :: "nat \<times> nat \<Rightarrow> real"

definition getitem :: "ndarray \<Rightarrow> nat \<Rightarrow> nat \<Rightarrow> error + real" where
  "getitem a v u =
     (if v < fst (shape a) \<and> u < snd (shape a) then Inr (elems a (v, u)) else Inl IndexError)"

definition setitem :: "ndarray \<Rightarrow> nat \<Rightarrow> nat \<Rightarrow> real \<Rightarrow> error + ndarray" where
  "setitem a v u c =
     (if v < fst (shape a) \<and> u < snd (shape a)
      then Inr (a\<lparr>elems := (elems a)((v, u) := c)\<rparr>)
      else Inl IndexError)"

text \<open>
  \<^verbatim>\<open>dvs_msgs/Event\<close>: pixel coordinates, timestamp and polarity. The timestamp is
  kept as the number of seconds handed to \<^verbatim>\<open>rospy.Time(secs=ts)\<close>; the
  representation of \<^verbatim>\<open>rospy.Time\<close> belongs to the ROS client library.
\<close>

record event =
  e_x :: nat
  e_y :: nat
  e_ts :: real
  e_polarity :: bool

definition make_event :: "nat \<Rightarrow> nat \<Rightarrow> real \<Rightarrow> bool \<Rightarrow> event" where
  "make_event x y ts pol = \<lparr>e_x = x, e_y = y, e_ts = ts, e_polarity = pol\<rparr>"

text \<open>The fields of \<^verbatim>\<open>self\<close> in \<^verbatim>\<open>class DvsSimulator\<close>.\<close>

record DvsSimulator =
  self_C :: real
  self_height :: nat
  self_width :: nat
  self_reference_values :: ndarray
  self_It_array :: ndarray
  self_t :: real

subsection \<open>Construction\<close>


subsection \<open>The crossing scan\<close>

text \<open>
  The \<^verbatim>\<open>while not all_crossings_found\<close> loop. Nothing in the loop itself bounds
  the number of iterations (with \<open>C \<le> 0\<close> it can append for ever), so the loop is a
  partial function: \<open>None\<close> means that it does not return.
\<close>

partial_function (option) find_crossings ::
  "int \<Rightarrow> real \<Rightarrow> real \<Rightarrow> real \<Rightarrow> real \<Rightarrow> real list \<Rightarrow> real list option" where
  "find_crossings polarity C It It_dt cur_crossing list_crossings =
     (let cur_crossing = cur_crossing + real_of_int polarity * C in
      if polarity > 0 then
        if cur_crossing > It \<and> cur_crossing \<le> It_dt
        then find_crossings polarity C It It_dt cur_crossing (list_crossings @ [cur_crossing])
        else Some list_crossings
      else
        if cur_crossing < It \<and> cur_crossing \<ge> It_dt
        then find_crossings polarity C It It_dt cur_crossing (list_crossings @ [cur_crossing])
        else Some list_crossings)"

declare find_crossings.simps [code]

subsection \<open>One pixel\<close>

definition tol :: real where
  "tol = 1 / 1000000"

text \<open>
  The body of the inner \<^verbatim>\<open>for v in range(self.height)\<close> loop for the pixel in
  column \<open>u\<close> and row \<open>v\<close>. An exception is returned together with \<^verbatim>\<open>self\<close> as
  it is when the exception is raised.
\<close>

definition update_px ::
  "DvsSimulator \<Rightarrow> real \<Rightarrow> ndarray \<Rightarrow> nat \<Rightarrow> nat \<Rightarrow> event list
     \<Rightarrow> (error \<times> DvsSimulator + DvsSimulator \<times> event list) option" where
  "update_px self delta_t It_dt_array u v current_events =
     (case getitem (self_It_array self) v u of
        Inl e \<Rightarrow> Some (Inl (e, self))
      | Inr It \<Rightarrow>
     (case getitem It_dt_array v u of
        Inl e \<Rightarrow> Some (Inl (e, self))
      | Inr It_dt \<Rightarrow>
     (case getitem (self_reference_values self) v u of
        Inl e \<Rightarrow> Some (Inl (e, self))
      | Inr previous_crossing \<Rightarrow>
          if \<bar>It - It_dt\<bar> > tol then
            let polarity = (if It_dt \<ge> It then 1 else - 1) in
            (case find_crossings polarity (self_C self) It It_dt previous_crossing [] of
               None \<Rightarrow> None
             | Some list_crossings \<Rightarrow>
                 let events_for_px =
                       map (\<lambda>crossing.
                              make_event u v
                                (self_t self + (crossing - It) * delta_t / (It_dt - It))
                                (polarity > 0))
                           list_crossings;
                     current_events = current_events @ events_for_px
                 in if list_crossings \<noteq> [] then
                      (case setitem (self_reference_values self) v u (last list_crossings) of
                         Inl e \<Rightarrow> Some (Inl (e, self))
                       | Inr r \<Rightarrow> Some (Inr (self\<lparr>self_reference_values := r\<rparr>, current_events)))
                    else Some (Inr (self, current_events)))
          else Some (Inr (self, current_events)))))"

subsection \<open>One frame\<close>

text \<open>
  The two nested \<^verbatim>\<open>for\<close> loops visit the pixels column by column:
  \<^verbatim>\<open>for u in range(self.width): for v in range(self.height)\<close>, that is the
  pairs \<open>(u, v)\<close> in this order.
\<close>

definition all_pixels :: "DvsSimulator \<Rightarrow> (nat \<times> nat) list" where
  "all_pixels self = List.product [0..<self_width self] [0..<self_height self]"

fun update_pixels ::
  "DvsSimulator \<Rightarrow> real \<Rightarrow> ndarray \<Rightarrow> (nat \<times> nat) list \<Rightarrow> event list
     \<Rightarrow> (error \<times> DvsSimulator + DvsSimulator \<times> event list) option" where
  "update_pixels self delta_t It_dt_array [] current_events = Some (Inr (self, current_events))"
| "update_pixels self delta_t It_dt_array ((u, v) # pxs) current_events =
     (case update_px self delta_t It_dt_array u v current_events of
        None \<Rightarrow> None
      | Some (Inl e) \<Rightarrow> Some (Inl e)
      | Some (Inr (self', current_events')) \<Rightarrow>
          update_pixels self' delta_t It_dt_array pxs current_events')"

text \<open>
  \<^verbatim>\<open>update\<close>: the two assertions, the pixel loops, then the snapshot and the
  timestamp are replaced. The result is \<open>None\<close> when the call does not return,
  \<open>Some (Inl (e, self'))\<close> when it raises \<open>e\<close> leaving the object as \<open>self'\<close>, and
  \<open>Some (Inr (self', events))\<close> when it returns the event list.
\<close>

definition update ::
  "DvsSimulator \<Rightarrow> real \<Rightarrow> ndarray
     \<Rightarrow> (error \<times> DvsSimulator + DvsSimulator \<times> event list) option" where
  "update self t_dt It_dt_array =
     (if shape It_dt_array \<noteq> shape (self_It_array self) then Some (Inl (AssertionError, self))
      else
        let delta_t = t_dt - self_t self in
        if \<not> delta_t > 0 then Some (Inl (AssertionError, self))
        else
          (case update_pixels self delta_t It_dt_array (all_pixels self) [] of
             None \<Rightarrow> None
           | Some (Inl e) \<Rightarrow> Some (Inl e)
           | Some (Inr (self', current_events)) \<Rightarrow>
               Some (Inr (self'\<lparr>self_It_array := It_dt_array, self_t := t_dt\<rparr>,
                          current_events))))"


subsection \<open>The event publishing block of the driver loop\<close>

text \<open>
  \<^verbatim>\<open>dvs_msgs/EventArray\<close> with the header's stamp, and the variables of the driver
  loop that the block reads and writes: the simulator, the event buffer
  \<^verbatim>\<open>events\<close>, \<^verbatim>\<open>last_pub_event_timestamp\<close>, and the two sinks, as the lists of
  what has been handed to them: the messages published on \<^verbatim>\<open>event_pub\<close> and the
  messages written to the bag on \<^verbatim>\<open>/dvs/events\<close> with their time. Timestamps
  and durations are kept in seconds.
\<close>

record EventArray =
  stamp :: real
  ea_width :: nat
  ea_height :: nat
  ea_events :: "event list"

record driver =
  sim :: DvsSimulator
  events :: "event list"
  last_pub_event_timestamp :: real
  event_pub :: "EventArray list"
  bag :: "(real \<times> EventArray) list"

text \<open>The block under \<^verbatim>\<open># publish events\<close>; \<open>cam\<close> is \<open>(cam.width, cam.height)\<close>.\<close>

definition publish_events :: "real \<Rightarrow> real \<Rightarrow> nat \<times> nat \<Rightarrow> bool \<Rightarrow> driver \<Rightarrow> driver" where
  "publish_events timestamp delta_event cam write_to_bag d =
     (if timestamp - last_pub_event_timestamp d > delta_event then
        let sorted_events = sort_key e_ts (events d);
            event_array = \<lparr>stamp = timestamp, ea_width = fst cam, ea_height = snd cam,
                           ea_events = sorted_events\<rparr>
        in d\<lparr>events := [],
             last_pub_event_timestamp := timestamp,
             event_pub := event_pub d @ [event_array],
             bag := (if write_to_bag then bag d @ [(timestamp, event_array)] else bag d)\<rparr>
      else d)"

text \<open>
  One iteration of the driver loop, as far as the events are concerned:
  \<^verbatim>\<open>current_events = sim.update(timestamp.to_sec(), img)\<close>,
  \<^verbatim>\<open>events += current_events\<close>, then the publishing block.
\<close>

definition frame_step ::
  "real \<Rightarrow> ndarray \<Rightarrow> real \<Rightarrow> nat \<times> nat \<Rightarrow> bool \<Rightarrow> driver \<Rightarrow> (error \<times> driver + driver) option" where
  "frame_step timestamp img delta_event cam write_to_bag d =
     (case update (sim d) timestamp img of
        None \<Rightarrow> None
      | Some (Inl (e, self')) \<Rightarrow> Some (Inl (e, d\<lparr>sim := self'\<rparr>))
      | Some (Inr (self', current_events)) \<Rightarrow>
          Some (Inr (publish_events timestamp delta_event cam write_to_bag
                       (d\<lparr>sim := self', events := events d @ current_events\<rparr>))))"

section \<open>Notions used to state the properties\<close>

text \<open>
  What the constructor establishes and \<^verbatim>\<open>update\<close> keeps: a positive threshold,
  and both stored arrays of shape \<open>(height, width)\<close>.
\<close>

definition wf_sim :: "DvsSimulator \<Rightarrow> bool" where
  "wf_sim self \<longleftrightarrow>
     self_C self > 0 \<and>
     shape (self_It_array self) = (self_height self, self_width self) \<and>
     shape (self_reference_values self) = (self_height self, self_width self)"

text \<open>
  The value of \<^verbatim>\<open>list_crossings\<close> for the pixel in column \<open>u\<close> and row \<open>v\<close>
  when \<^verbatim>\<open>update\<close> is called with \<open>It_dt_array\<close>: what the scan returns, and the
  empty list when the pixel is skipped by the tolerance test. (The scan returns
  whenever \<open>C > 0\<close>: lemma \<open>find_crossings_closed\<close> below.)
\<close>

definition px_crossings :: "DvsSimulator \<Rightarrow> ndarray \<Rightarrow> nat \<Rightarrow> nat \<Rightarrow> real list" where
  "px_crossings self It_dt_array u v =
     (let It = elems (self_It_array self) (v, u);
          It_dt = elems It_dt_array (v, u);
          previous_crossing = elems (self_reference_values self) (v, u)
      in if \<bar>It - It_dt\<bar> > tol then
           (case find_crossings (if It_dt \<ge> It then 1 else - 1) (self_C self) It It_dt
                   previous_crossing [] of
              None \<Rightarrow> []
            | Some list_crossings \<Rightarrow> list_crossings)
         else [])"

text \<open>The value of \<^verbatim>\<open>events_for_px\<close> for that pixel: one event per crossing.\<close>

definition px_events :: "DvsSimulator \<Rightarrow> real \<Rightarrow> ndarray \<Rightarrow> nat \<Rightarrow> nat \<Rightarrow> event list" where
  "px_events self delta_t It_dt_array u v =
     (let It = elems (self_It_array self) (v, u);
          It_dt = elems It_dt_array (v, u)
      in map (\<lambda>crossing.
                make_event u v (self_t self + (crossing - It) * delta_t / (It_dt - It)) (It_dt \<ge> It))
             (px_crossings self It_dt_array u v))"

text \<open>The reference grid after the pixels \<open>pxs\<close> have been visited, starting from \<open>r\<close>.\<close>

definition new_refs :: "DvsSimulator \<Rightarrow> ndarray \<Rightarrow> (nat \<times> nat) list \<Rightarrow> ndarray \<Rightarrow> ndarray" where
  "new_refs self It_dt_array pxs r =
     r\<lparr>elems := (\<lambda>(v, u).
          if (u, v) \<in> set pxs \<and> px_crossings self It_dt_array u v \<noteq> []
          then last (px_crossings self It_dt_array u v)
          else elems r (v, u))\<rparr>"

text \<open>The events of a list that belong to the pixel in column \<open>u\<close> and row \<open>v\<close>.\<close>

definition events_at :: "nat \<Rightarrow> nat \<Rightarrow> event list \<Rightarrow> event list" where
  "events_at u v evs = filter (\<lambda>e. e_x e = u \<and> e_y e = v) evs"

text \<open>The number of crossings the scan finds, in closed form.\<close>

definition run_length :: "real \<Rightarrow> real \<Rightarrow> real \<Rightarrow> real \<Rightarrow> nat" where
  "run_length C It It_dt ref =
     (if It \<le> It_dt
      then (if It < ref + C then nat \<lfloor>(It_dt - ref) / C\<rfloor> else 0)
      else (if ref - C < It then nat \<lfloor>(ref - It_dt) / C\<rfloor> else 0))"

text \<open>A constant array (\<^verbatim>\<open>numpy.full\<close>), for concrete frames.\<close>

definition full :: "nat \<times> nat \<Rightarrow> real \<Rightarrow> ndarray" where
  "full shp c = \<lparr>shape = shp, elems = \<lambda>_. c\<rparr>"


text \<open>A simulator with a single pixel, for concrete runs.\<close>

definition sim_1x1 :: "real \<Rightarrow> real \<Rightarrow> real \<Rightarrow> real \<Rightarrow> DvsSimulator" where
  "sim_1x1 C ref It t0 =
     \<lparr>self_C = C, self_height = 1, self_width = 1,
      self_reference_values = full (1, 1) ref, self_It_array = full (1, 1) It, self_t = t0\<rparr>"

text \<open>A driver state with two buffered events, out of order.\<close>

definition example_driver :: driver where
  "example_driver =
     \<lparr>sim = sim_1x1 (15 / 100) 0 0 0,
      events = [make_event 0 0 (9 / 10) True, make_event 0 0 (3 / 10) True],
      last_pub_event_timestamp = 0, event_pub = [], bag = []\<rparr>"

section \<open>The scan in closed form\<close>

lemma upt_shift: "map (\<lambda>k. f (Suc k)) [1..<Suc n] = map f [2..<Suc (Suc n)]"
proof -
  have "map f [Suc 1..<Suc (Suc n)] = map f (map Suc [1..<Suc n])"
    by (simp only: map_Suc_upt)
  also have "\<dots> = map (\<lambda>k. f (Suc k)) [1..<Suc n]"
    by (simp only: map_map comp_def)
  finally show ?thesis by (simp only: Suc_1)
qed

lemma run_step:
  "f 1 # map (\<lambda>k. f (Suc k)) [1..<Suc n] = map f [1..<Suc (Suc n)]"
proof -
  have "[1..<Suc (Suc n)] = 1 # [Suc 1..<Suc (Suc n)]"
    by (rule upt_conv_Cons) simp
  then have "map f [1..<Suc (Suc n)] = f 1 # map f [2..<Suc (Suc n)]"
    by (simp only: list.map Suc_1)
  then show ?thesis by (simp only: upt_shift)
qed

lemma find_crossings_up_run:
  assumes "0 < C" and "It < cur + C"
  shows "find_crossings 1 C It It_dt cur acc =
           Some (acc @ map (\<lambda>k. cur + real k * C) [1..<Suc (nat \<lfloor>(It_dt - cur) / C\<rfloor>)])"
  using assms(2)
proof (induction "nat \<lfloor>(It_dt - cur) / C\<rfloor>" arbitrary: cur acc)
  case 0
  then have "\<lfloor>(It_dt - cur) / C\<rfloor> < 1" by simp
  then have "(It_dt - cur) / C < 1" by (simp add: floor_less_iff)
  with assms(1) have "It_dt < cur + C" by (simp add: field_simps)
  with 0 show ?case by (subst find_crossings.simps) (simp add: Let_def)
next
  case (Suc n)
  let ?c = "cur + C"
  from Suc(2) have "1 \<le> \<lfloor>(It_dt - cur) / C\<rfloor>" by linarith
  then have "1 \<le> (It_dt - cur) / C" using le_floor_iff[of 1 "(It_dt - cur) / C"] by simp
  with assms(1) have le: "?c \<le> It_dt" by (simp add: field_simps)
  have "(It_dt - ?c) / C = (It_dt - cur) / C - 1"
    using assms(1) by (simp add: field_simps)
  then have n: "n = nat \<lfloor>(It_dt - ?c) / C\<rfloor>" using Suc(2) by simp
  have "It < ?c + C" using Suc(3) assms(1) by simp
  from Suc(1)[OF n this, of "acc @ [?c]"]
  have IH: "find_crossings 1 C It It_dt ?c (acc @ [?c]) =
      Some (acc @ ?c # map (\<lambda>k. ?c + real k * C) [1..<Suc n])"
    using n by simp
  have "?c # map (\<lambda>k. ?c + real k * C) [1..<Suc n] = map (\<lambda>k. cur + real k * C) [1..<Suc (Suc n)]"
    using run_step[of "\<lambda>k. cur + real k * C" n] by (simp add: algebra_simps)
  with IH have "find_crossings 1 C It It_dt ?c (acc @ [?c]) =
      Some (acc @ map (\<lambda>k. cur + real k * C) [1..<Suc (Suc n)])" by simp
  moreover have "find_crossings 1 C It It_dt cur acc = find_crossings 1 C It It_dt ?c (acc @ [?c])"
    using le Suc(3) by (subst find_crossings.simps) (simp add: Let_def)
  ultimately show ?case using Suc(2) by simp
qed

lemma find_crossings_down_run:
  assumes "0 < C" and "cur - C < It"
  shows "find_crossings (- 1) C It It_dt cur acc =
           Some (acc @ map (\<lambda>k. cur - real k * C) [1..<Suc (nat \<lfloor>(cur - It_dt) / C\<rfloor>)])"
  using assms(2)
proof (induction "nat \<lfloor>(cur - It_dt) / C\<rfloor>" arbitrary: cur acc)
  case 0
  then have "\<lfloor>(cur - It_dt) / C\<rfloor> < 1" by simp
  then have "(cur - It_dt) / C < 1" by (simp add: floor_less_iff)
  with assms(1) have "cur - C < It_dt" by (simp add: field_simps)
  with 0 show ?case by (subst find_crossings.simps) (simp add: Let_def)
next
  case (Suc n)
  let ?c = "cur - C"
  from Suc(2) have "1 \<le> \<lfloor>(cur - It_dt) / C\<rfloor>" by linarith
  then have "1 \<le> (cur - It_dt) / C" using le_floor_iff[of 1 "(cur - It_dt) / C"] by simp
  with assms(1) have le: "It_dt \<le> ?c" by (simp add: field_simps)
  have "(?c - It_dt) / C = (cur - It_dt) / C - 1"
    using assms(1) by (simp add: field_simps)
  then have n: "n = nat \<lfloor>(?c - It_dt) / C\<rfloor>" using Suc(2) by simp
  have "?c - C < It" using Suc(3) assms(1) by simp
  from Suc(1)[OF n this, of "acc @ [?c]"]
  have IH: "find_crossings (- 1) C It It_dt ?c (acc @ [?c]) =
      Some (acc @ ?c # map (\<lambda>k. ?c - real k * C) [1..<Suc n])"
    using n by simp
  have "?c # map (\<lambda>k. ?c - real k * C) [1..<Suc n] = map (\<lambda>k. cur - real k * C) [1..<Suc (Suc n)]"
    using run_step[of "\<lambda>k. cur - real k * C" n] by (simp add: algebra_simps)
  with IH have "find_crossings (- 1) C It It_dt ?c (acc @ [?c]) =
      Some (acc @ map (\<lambda>k. cur - real k * C) [1..<Suc (Suc n)])" by simp
  moreover have "find_crossings (- 1) C It It_dt cur acc = find_crossings (- 1) C It It_dt ?c (acc @ [?c])"
    using le Suc(3) by (subst find_crossings.simps) (simp add: Let_def)
  ultimately show ?case using Suc(2) by simp
qed

lemma find_crossings_up_none:
  "cur + C \<le> It \<Longrightarrow> find_crossings 1 C It It_dt cur acc = Some acc"
  by (subst find_crossings.simps) (simp add: Let_def)

lemma find_crossings_down_none:
  "It \<le> cur - C \<Longrightarrow> find_crossings (- 1) C It It_dt cur acc = Some acc"
  by (subst find_crossings.simps) (simp add: Let_def)

lemma find_crossings_up_total:
  assumes "0 < C"
  shows "\<exists>l. find_crossings 1 C It It_dt cur acc = Some l"
proof (cases "It < cur + C")
  case True
  from find_crossings_up_run[OF assms True] show ?thesis by blast
next
  case False
  then show ?thesis by (simp add: find_crossings_up_none)
qed

lemma find_crossings_down_total:
  assumes "0 < C"
  shows "\<exists>l. find_crossings (- 1) C It It_dt cur acc = Some l"
proof (cases "cur - C < It")
  case True
  from find_crossings_down_run[OF assms True] show ?thesis by blast
next
  case False
  then show ?thesis by (simp add: find_crossings_down_none)
qed

lemma update_px_in_range:
  assumes C: "0 < self_C self"
    and shapes: "shape (self_It_array self) = (H, W)" "shape It_dt_array = (H, W)"
      "shape (self_reference_values self) = (H, W)"
    and px: "v < H" "u < W"
  shows "update_px self delta_t It_dt_array u v evs =
           Some (Inr (self\<lparr>self_reference_values :=
                            (if px_crossings self It_dt_array u v = [] then self_reference_values self
                             else (self_reference_values self)
                                    \<lparr>elems := (elems (self_reference_values self))
                                       ((v, u) := last (px_crossings self It_dt_array u v))\<rparr>)\<rparr>,
                      evs @ px_events self delta_t It_dt_array u v))"
proof -
  let ?It = "elems (self_It_array self) (v, u)"
  let ?It_dt = "elems It_dt_array (v, u)"
  let ?ref = "elems (self_reference_values self) (v, u)"
  have g: "getitem (self_It_array self) v u = Inr ?It" "getitem It_dt_array v u = Inr ?It_dt"
    "getitem (self_reference_values self) v u = Inr ?ref"
    using shapes px by (simp_all add: getitem_def)
  have s: "setitem (self_reference_values self) v u c =
      Inr ((self_reference_values self)\<lparr>elems := (elems (self_reference_values self))((v, u) := c)\<rparr>)" for c
    using shapes px by (simp add: setitem_def)
  show ?thesis
  proof (cases "\<bar>?It - ?It_dt\<bar> > tol")
    case False
    then show ?thesis
      by (simp add: update_px_def g px_crossings_def px_events_def)
  next
    case True
    show ?thesis
    proof (cases "?It \<le> ?It_dt")
      case up: True
      from find_crossings_up_total[OF C] obtain l where
        l: "find_crossings 1 (self_C self) ?It ?It_dt ?ref [] = Some l" by blast
      with True up show ?thesis
        by (simp add: update_px_def g s px_crossings_def px_events_def Let_def)
    next
      case down: False
      from find_crossings_down_total[OF C] obtain l where
        l: "find_crossings (- 1) (self_C self) ?It ?It_dt ?ref [] = Some l" by blast
      with True down show ?thesis
        by (simp add: update_px_def g s px_crossings_def px_events_def Let_def)
    qed
  qed
qed

lemma px_crossings_cong:
  "self_C s1 = self_C s2 \<Longrightarrow> self_It_array s1 = self_It_array s2 \<Longrightarrow>
   elems (self_reference_values s1) (v, u) = elems (self_reference_values s2) (v, u) \<Longrightarrow>
   px_crossings s1 I1 u v = px_crossings s2 I1 u v"
  by (simp add: px_crossings_def Let_def cong: if_cong)

lemma px_events_cong:
  "self_C s1 = self_C s2 \<Longrightarrow> self_It_array s1 = self_It_array s2 \<Longrightarrow> self_t s1 = self_t s2 \<Longrightarrow>
   elems (self_reference_values s1) (v, u) = elems (self_reference_values s2) (v, u) \<Longrightarrow>
   px_events s1 d I1 u v = px_events s2 d I1 u v"
  by (simp add: px_events_def px_crossings_def Let_def cong: if_cong)

lemma update_pixels_char:
  assumes C: "0 < self_C self"
    and shapes: "shape (self_It_array self) = (H, W)" "shape I1 = (H, W)"
  shows "distinct pxs \<Longrightarrow> \<forall>(u, v) \<in> set pxs. u < W \<and> v < H \<Longrightarrow> shape r = (H, W) \<Longrightarrow>
     \<forall>(u, v) \<in> set pxs. elems r (v, u) = elems (self_reference_values self) (v, u) \<Longrightarrow>
     update_pixels (self\<lparr>self_reference_values := r\<rparr>) d I1 pxs evs =
       Some (Inr (self\<lparr>self_reference_values := new_refs self I1 pxs r\<rparr>,
                  evs @ concat (map (\<lambda>(u, v). px_events self d I1 u v) pxs)))"
proof (induction pxs arbitrary: r evs)
  case Nil
  have "new_refs self I1 [] r = r" by (simp add: new_refs_def)
  then show ?case by simp
next
  case (Cons p pxs)
  obtain u v where p: "p = (u, v)" by (cases p)
  let ?s = "self\<lparr>self_reference_values := r\<rparr>"
  let ?cs = "px_crossings self I1 u v"
  from Cons.prems p have in_range: "v < H" "u < W" and
    here: "elems r (v, u) = elems (self_reference_values self) (v, u)" by auto
  have cs: "px_crossings ?s I1 u v = ?cs"
    by (rule px_crossings_cong) (simp_all add: here)
  have es: "px_events ?s d I1 u v = px_events self d I1 u v"
    by (rule px_events_cong) (simp_all add: here)
  define r1 where "r1 = (if ?cs = [] then r else r\<lparr>elems := (elems r)((v, u) := last ?cs)\<rparr>)"
  have step: "update_px ?s d I1 u v evs =
      Some (Inr (self\<lparr>self_reference_values := r1\<rparr>, evs @ px_events self d I1 u v))"
    using update_px_in_range[of ?s H W I1 v u d evs] C shapes Cons.prems(3) in_range
    by (simp add: cs es r1_def)
  have shape1: "shape r1 = (H, W)" using Cons.prems(3) by (simp add: r1_def)
  have notin: "(u, v) \<notin> set pxs" using Cons.prems(1) p by simp
  have rest: "\<forall>(u', v') \<in> set pxs. elems r1 (v', u') = elems (self_reference_values self) (v', u')"
    using Cons.prems(4) notin by (auto simp: r1_def)
  from Cons.prems have d: "distinct pxs" and rng: "\<forall>(u, v) \<in> set pxs. u < W \<and> v < H" by auto
  note IH = Cons.IH[OF d rng shape1 rest, of "evs @ px_events self d I1 u v"]
  have eq: "new_refs self I1 pxs r1 = new_refs self I1 (p # pxs) r"
    using notin by (auto simp: new_refs_def r1_def p fun_eq_iff)
  show ?case using step IH by (simp add: p eq[unfolded p])
qed

section \<open>One call of update\<close>

lemma all_pixels_distinct: "distinct (all_pixels self)"
  by (simp add: all_pixels_def distinct_product)

lemma all_pixels_set: "(u, v) \<in> set (all_pixels self) \<longleftrightarrow> u < self_width self \<and> v < self_height self"
  by (simp add: all_pixels_def)

lemma update_char:
  assumes wf: "wf_sim self"
    and shape: "shape I1 = shape (self_It_array self)"
    and dt: "0 < t_dt - self_t self"
  shows "update self t_dt I1 =
           Some (Inr (self\<lparr>self_reference_values :=
                             new_refs self I1 (all_pixels self) (self_reference_values self),
                           self_It_array := I1, self_t := t_dt\<rparr>,
                      concat (map (\<lambda>(u, v). px_events self (t_dt - self_t self) I1 u v)
                                  (all_pixels self))))"
proof -
  let ?H = "self_height self" and ?W = "self_width self"
  from wf have C: "0 < self_C self"
    and s1: "shape (self_It_array self) = (?H, ?W)"
    and s2: "shape (self_reference_values self) = (?H, ?W)"
    by (simp_all add: wf_sim_def)
  from shape s1 have s3: "shape I1 = (?H, ?W)" by simp
  have rng: "\<forall>(u, v) \<in> set (all_pixels self). u < ?W \<and> v < ?H"
    by (simp add: all_pixels_def)
  have same: "\<forall>(u, v) \<in> set (all_pixels self).
      elems (self_reference_values self) (v, u) = elems (self_reference_values self) (v, u)"
    by simp
  have "self\<lparr>self_reference_values := self_reference_values self\<rparr> = self" by simp
  with update_pixels_char[OF C s1 s3 all_pixels_distinct rng s2 same,
      of "t_dt - self_t self" "[]"]
  have "update_pixels self (t_dt - self_t self) I1 (all_pixels self) [] =
      Some (Inr (self\<lparr>self_reference_values :=
                        new_refs self I1 (all_pixels self) (self_reference_values self)\<rparr>,
                 concat (map (\<lambda>(u, v). px_events self (t_dt - self_t self) I1 u v)
                             (all_pixels self))))"
    by simp
  then show ?thesis
    using shape dt by (simp add: update_def Let_def)
qed


lemma new_refs_at:
  "elems (new_refs self I1 pxs r) (v, u) =
     (if (u, v) \<in> set pxs \<and> px_crossings self I1 u v \<noteq> []
      then last (px_crossings self I1 u v) else elems r (v, u))"
  by (simp add: new_refs_def)

lemma events_at_px_events:
  "events_at u v (px_events self d I1 u' v') = (if u' = u \<and> v' = v then px_events self d I1 u' v' else [])"
  by (auto simp: events_at_def px_events_def make_event_def Let_def filter_map comp_def)

lemma events_at_append: "events_at u v (xs @ ys) = events_at u v xs @ events_at u v ys"
  by (simp add: events_at_def)

lemma events_at_concat:
  "distinct pxs \<Longrightarrow>
   events_at u v (concat (map (\<lambda>(u, v). px_events self d I1 u v) pxs)) =
     (if (u, v) \<in> set pxs then px_events self d I1 u v else [])"
proof (induction pxs)
  case Nil
  show ?case by (simp add: events_at_def)
next
  case (Cons p pxs)
  obtain u' v' where p: "p = (u', v')" by (cases p)
  from Cons.prems have d: "distinct pxs" and n: "(u', v') \<notin> set pxs" by (simp_all add: p)
  show ?case
    using Cons.IH[OF d] n
    by (auto simp: p events_at_append events_at_px_events)
qed




lemma find_crossings_closed:
  assumes "0 < C"
  shows "find_crossings (if It \<le> It_dt then 1 else - 1) C It It_dt ref [] =
           Some (map (\<lambda>k. ref + real k * (if It \<le> It_dt then 1 else - 1) * C)
                     [1..<Suc (run_length C It It_dt ref)])"
proof (cases "It \<le> It_dt")
  case up: True
  show ?thesis
  proof (cases "It < ref + C")
    case True
    from find_crossings_up_run[OF assms True, of It_dt "[]"] up True
    show ?thesis by (simp add: run_length_def)
  next
    case False
    with up show ?thesis by (simp add: run_length_def find_crossings_up_none)
  qed
next
  case down: False
  show ?thesis
  proof (cases "ref - C < It")
    case True
    from find_crossings_down_run[OF assms True, of It_dt "[]"] down True
    show ?thesis by (simp add: run_length_def)
  next
    case False
    with down show ?thesis by (simp add: run_length_def find_crossings_down_none)
  qed
qed

lemma px_crossings_closed:
  assumes "0 < self_C self"
    and "I0 = elems (self_It_array self) (v, u)" "I1 = elems A (v, u)"
        "ref = elems (self_reference_values self) (v, u)"
    and "tol < \<bar>I1 - I0\<bar>"
  shows "px_crossings self A u v =
           map (\<lambda>k. ref + real k * (if I0 \<le> I1 then 1 else - 1) * self_C self)
               [1..<Suc (run_length (self_C self) I0 I1 ref)]"
proof -
  from assms(5) have "tol < \<bar>I0 - I1\<bar>" by simp
  then show ?thesis
    using find_crossings_closed[OF assms(1), of I0 I1 ref] assms(2-4)
    by (simp add: px_crossings_def Let_def)
qed

lemma px_crossings_skip:
  "\<bar>elems A (v, u) - elems (self_It_array self) (v, u)\<bar> \<le> tol \<Longrightarrow> px_crossings self A u v = []"
  by (simp add: px_crossings_def Let_def abs_minus_commute)





lemma update_at_pixel:
  assumes wf: "wf_sim self"
    and shape: "shape A = shape (self_It_array self)"
    and dt: "0 < t_dt - self_t self"
    and px: "u < self_width self" "v < self_height self"
  shows "\<exists>self' evs. update self t_dt A = Some (Inr (self', evs)) \<and>
           events_at u v evs = px_events self (t_dt - self_t self) A u v \<and>
           elems (self_reference_values self') (v, u) =
             (if px_crossings self A u v = [] then elems (self_reference_values self) (v, u)
              else last (px_crossings self A u v))"
proof -
  have "(u, v) \<in> set (all_pixels self)" using px by (simp add: all_pixels_set)
  then show ?thesis
    using update_char[OF wf shape dt] events_at_concat[OF all_pixels_distinct, of u v self]
    by (simp add: new_refs_at)
qed




section \<open>Frame conditions and errors\<close>

lemma px_events_length: "length (px_events self d A u v) = length (px_crossings self A u v)"
  by (simp add: px_events_def Let_def)

lemma last_run: "1 \<le> n \<Longrightarrow> last (map f [1..<Suc n]) = f n"
  by (simp add: last_map)

lemma concat_all_empty: "\<forall>p \<in> set pxs. f p = [] \<Longrightarrow> concat (map f pxs) = []"
  by (induction pxs) simp_all

lemma new_refs_unchanged:
  assumes "\<forall>(u, v) \<in> set pxs. px_crossings self A u v = []"
  shows "new_refs self A pxs r = r"
proof -
  have "(\<lambda>(v, u). if (u, v) \<in> set pxs \<and> px_crossings self A u v \<noteq> []
          then last (px_crossings self A u v) else elems r (v, u)) = elems r"
    using assms by (auto simp: fun_eq_iff)
  then show ?thesis by (simp add: new_refs_def)
qed

lemma update_no_crossings:
  assumes wf: "wf_sim self"
    and shape: "shape A = shape (self_It_array self)"
    and dt: "0 < t_dt - self_t self"
    and none: "\<forall>(u, v) \<in> set (all_pixels self). px_crossings self A u v = []"
  shows "update self t_dt A = Some (Inr (self\<lparr>self_It_array := A, self_t := t_dt\<rparr>, []))"
proof -
  from none have "\<forall>p \<in> set (all_pixels self).
      (\<lambda>(u, v). px_events self (t_dt - self_t self) A u v) p = []"
    by (auto simp: px_events_def Let_def)
  from concat_all_empty[OF this] new_refs_unchanged[OF none] update_char[OF wf shape dt]
  show ?thesis by simp
qed



lemma update_px_error:
  "update_px self d A u v evs = Some (Inl (e, st)) \<Longrightarrow> e = IndexError"
  by (auto simp: update_px_def getitem_def setitem_def Let_def
           split: sum.splits option.splits if_splits)

lemma update_pixels_error:
  "update_pixels self d A pxs evs = Some (Inl (e, st)) \<Longrightarrow> e = IndexError"
proof (induction pxs arbitrary: self evs)
  case Nil
  then show ?case by simp
next
  case (Cons p pxs)
  obtain u v where p: "p = (u, v)" by (cases p)
  show ?case
  proof (cases "update_px self d A u v evs")
    case None
    with Cons.prems show ?thesis by (simp add: p)
  next
    case (Some r)
    show ?thesis
    proof (cases r)
      case (Inl a)
      with Some Cons.prems have "update_px self d A u v evs = Some (Inl (e, st))"
        by (simp add: p)
      then show ?thesis by (rule update_px_error)
    next
      case (Inr b)
      obtain s1 e1 where b: "b = (s1, e1)" by (cases b)
      with Inr Some Cons.prems have "update_pixels s1 d A pxs e1 = Some (Inl (e, st))"
        by (simp add: p)
      then show ?thesis by (rule Cons.IH)
    qed
  qed
qed


section \<open>The reference level along a run\<close>







section \<open>Concrete simulators\<close>

lemma sim_1x1_simps:
  "self_C (sim_1x1 C ref It t0) = C"
  "self_height (sim_1x1 C ref It t0) = 1"
  "self_width (sim_1x1 C ref It t0) = 1"
  "self_reference_values (sim_1x1 C ref It t0) = full (1, 1) ref"
  "self_It_array (sim_1x1 C ref It t0) = full (1, 1) It"
  "self_t (sim_1x1 C ref It t0) = t0"
  by (simp_all add: sim_1x1_def)

lemma full_simps: "shape (full shp c) = shp" "elems (full shp c) i = c"
  by (simp_all add: full_def)

lemma wf_sim_1x1: "0 < C \<Longrightarrow> wf_sim (sim_1x1 C ref It t0)"
  by (simp add: wf_sim_def sim_1x1_simps full_simps)

lemma all_pixels_1x1: "all_pixels (sim_1x1 C ref It t0) = [(0, 0)]"
  by (simp add: all_pixels_def sim_1x1_simps)

lemma sim_1x1_update:
  "(sim_1x1 C ref It t0)\<lparr>self_It_array := full (1, 1) J, self_t := t1\<rparr> = sim_1x1 C ref J t1"
  by (simp add: sim_1x1_def)

lemma update_1x1_no_crossings:
  assumes "0 < C" and "t0 < t1"
    and "px_crossings (sim_1x1 C ref It t0) (full (1, 1) J) 0 0 = []"
  shows "update (sim_1x1 C ref It t0) t1 (full (1, 1) J) = Some (Inr (sim_1x1 C ref J t1, []))"
proof -
  have wf: "wf_sim (sim_1x1 C ref It t0)" by (rule wf_sim_1x1[OF assms(1)])
  have shape: "shape (full (1, 1) J) = shape (self_It_array (sim_1x1 C ref It t0))"
    by (simp add: sim_1x1_simps full_simps)
  have dt: "0 < t1 - self_t (sim_1x1 C ref It t0)" using assms(2) by (simp add: sim_1x1_simps)
  have none: "\<forall>(u, v) \<in> set (all_pixels (sim_1x1 C ref It t0)).
      px_crossings (sim_1x1 C ref It t0) (full (1, 1) J) u v = []"
    using assms(3) by (simp add: all_pixels_1x1)
  from update_no_crossings[OF wf shape dt none] show ?thesis by (simp only: sim_1x1_update)
qed








lemma px_crossings_1x1_same:
  "px_crossings (sim_1x1 (15 / 100) 0 0 0) (full (1, 1) 0) 0 0 = []"
  by (simp add: px_crossings_def sim_1x1_simps full_simps tol_def)

lemma update_1x1_same:
  "update (sim_1x1 (15 / 100) 0 0 0) 1 (full (1, 1) 0) = Some (Inr (sim_1x1 (15 / 100) 0 0 1, []))"
  by (rule update_1x1_no_crossings[OF _ _ px_crossings_1x1_same]) simp_all

lemma example_1x1_pre:
  "wf_sim (sim_1x1 (15 / 100) 0 0 0)"
  "shape (full (1, 1) J) = shape (self_It_array (sim_1x1 (15 / 100) 0 0 0))"
  "0 < 1 - self_t (sim_1x1 (15 / 100) 0 0 0)"
  "0 < self_width (sim_1x1 (15 / 100) 0 0 0)"
  "0 < self_height (sim_1x1 (15 / 100) 0 0 0)"
  "0 = elems (self_It_array (sim_1x1 (15 / 100) 0 0 0)) (0, 0)"
  "J = elems (full (1, 1) J) (0, 0)"
  "0 = elems (self_reference_values (sim_1x1 (15 / 100) 0 0 0)) (0, 0)"
  by (simp_all add: wf_sim_1x1 sim_1x1_simps full_simps)

section \<open>The claims\<close>





text \<open>
  C3. For every pixel of a call: the pixel has as many events as crossings were found;
  if at least one crossing was found, the reference level afterwards is the last
  crossing found, which is the one with the highest \<open>k\<close>, \<open>ref + n * p * C\<close> for \<open>n\<close>
  crossings; if none was found, and in particular when the pixel is skipped by the
  tolerance test, the reference level is unchanged.
\<close>

theorem reference_becomes_last_crossing:
  assumes wf: "wf_sim self"
    and shape: "shape It_dt_array = shape (self_It_array self)"
    and dt: "0 < t_dt - self_t self"
    and px: "u < self_width self" "v < self_height self"
    and I0: "I0 = elems (self_It_array self) (v, u)"
    and I1: "I1 = elems It_dt_array (v, u)"
    and ref: "ref = elems (self_reference_values self) (v, u)"
    and p: "p = (if I0 \<le> I1 then 1 else - 1)"
  shows "\<exists>self' evs.
           update self t_dt It_dt_array = Some (Inr (self', evs)) \<and>
           length (events_at u v evs) = length (px_crossings self It_dt_array u v) \<and>
           elems (self_reference_values self') (v, u) =
             (if px_crossings self It_dt_array u v = [] then ref
              else last (px_crossings self It_dt_array u v)) \<and>
           (\<bar>I1 - I0\<bar> \<le> tol \<longrightarrow> px_crossings self It_dt_array u v = []) \<and>
           (px_crossings self It_dt_array u v \<noteq> [] \<longrightarrow>
              elems (self_reference_values self') (v, u) =
                ref + real (length (px_crossings self It_dt_array u v)) * p * self_C self)"
proof -
  from wf have C: "0 < self_C self" by (simp add: wf_sim_def)
  let ?cs = "px_crossings self It_dt_array u v"
  from update_at_pixel[OF wf shape dt px] obtain self' evs where
    upd: "update self t_dt It_dt_array = Some (Inr (self', evs))" and
    evs: "events_at u v evs = px_events self (t_dt - self_t self) It_dt_array u v" and
    new: "elems (self_reference_values self') (v, u) = (if ?cs = [] then ref else last ?cs)"
    using ref by blast
  have len: "length (events_at u v evs) = length ?cs"
    by (simp add: evs px_events_length)
  have skip: "\<bar>I1 - I0\<bar> \<le> tol \<longrightarrow> ?cs = []"
    using px_crossings_skip[of It_dt_array v u self] I0 I1 by simp
  have extreme: "elems (self_reference_values self') (v, u) =
      ref + real (length ?cs) * p * self_C self" if ne: "?cs \<noteq> []"
  proof -
    have big: "tol < \<bar>I1 - I0\<bar>" using skip ne by auto
    define n where "n = run_length (self_C self) I0 I1 ref"
    have cs: "?cs = map (\<lambda>k. ref + real k * p * self_C self) [1..<Suc n]"
      using px_crossings_closed[OF C I0 I1 ref big] by (simp add: p n_def)
    then have l: "length ?cs = n" by simp
    with ne have "1 \<le> n" by (cases n) auto
    from last_run[OF this, of "\<lambda>k. ref + real k * p * self_C self"] cs
    have "last ?cs = ref + real n * p * self_C self" by simp
    with new ne l show ?thesis by simp
  qed
  from upd len new skip extreme show ?thesis by blast
qed

theorem reference_becomes_last_crossing_witness:
  "\<exists>self' evs.
      update (sim_1x1 (15 / 100) 0 0 0) 1 (full (1, 1) (1 / 2)) = Some (Inr (self', evs)) \<and>
      length (events_at 0 0 evs) =
        length (px_crossings (sim_1x1 (15 / 100) 0 0 0) (full (1, 1) (1 / 2)) 0 0) \<and>
      elems (self_reference_values self') (0, 0) =
        (if px_crossings (sim_1x1 (15 / 100) 0 0 0) (full (1, 1) (1 / 2)) 0 0 = [] then 0
         else last (px_crossings (sim_1x1 (15 / 100) 0 0 0) (full (1, 1) (1 / 2)) 0 0))"
proof -
  have p: "(1::real) = (if (0::real) \<le> 1 / 2 then 1 else - 1)" by simp
  from reference_becomes_last_crossing[OF example_1x1_pre(1-8) p]
  show ?thesis by blast
qed







text \<open>
  C6. If every pixel of the new frame is within the tolerance of the stored snapshot
  (in particular if the frame is the snapshot), the call returns the empty event list
  and the reference grid is unchanged.
\<close>

theorem unchanged_frame_no_events:
  assumes wf: "wf_sim self"
    and shape: "shape It_dt_array = shape (self_It_array self)"
    and dt: "0 < t_dt - self_t self"
    and small: "\<forall>v < self_height self. \<forall>u < self_width self.
                  \<bar>elems It_dt_array (v, u) - elems (self_It_array self) (v, u)\<bar> \<le> tol"
  shows "\<exists>self'. update self t_dt It_dt_array = Some (Inr (self', [])) \<and>
                 self_reference_values self' = self_reference_values self"
proof -
  have none: "\<forall>(u, v) \<in> set (all_pixels self). px_crossings self It_dt_array u v = []"
    using small by (auto simp: all_pixels_set intro: px_crossings_skip)
  then have "\<forall>p \<in> set (all_pixels self).
      (\<lambda>(u, v). px_events self (t_dt - self_t self) It_dt_array u v) p = []"
    by (auto simp: px_events_def Let_def)
  from concat_all_empty[OF this] new_refs_unchanged[OF none] update_char[OF wf shape dt]
  show ?thesis by simp
qed

theorem unchanged_frame_no_events_witness:
  "\<exists>self'. update (sim_1x1 (15 / 100) 0 0 0) 1 (full (1, 1) 0) = Some (Inr (self', [])) \<and>
            self_reference_values self' = self_reference_values (sim_1x1 (15 / 100) 0 0 0)"
proof -
  have small: "\<forall>v < self_height (sim_1x1 (15 / 100) 0 0 0).
      \<forall>u < self_width (sim_1x1 (15 / 100) 0 0 0).
        \<bar>elems (full (1, 1) 0) (v, u) - elems (self_It_array (sim_1x1 (15 / 100) 0 0 0)) (v, u)\<bar> \<le> tol"
    by (simp add: sim_1x1_simps full_simps tol_def)
  from unchanged_frame_no_events[OF example_1x1_pre(1-3) small]
  show ?thesis .
qed



text \<open>
  C8. A call fails an assertion if and only if the shape of the frame differs from the
  shape of the stored snapshot or \<open>t_dt - self.t\<close> is not positive; the object is then
  as it was before the call, and there is no event list. From a state as the
  constructor and \<^verbatim>\<open>update\<close> leave it, every other call returns.
\<close>

theorem update_rejects_iff_contract_violated:
  "((\<exists>st. update self t_dt It_dt_array = Some (Inl (AssertionError, st))) \<longleftrightarrow>
      (shape It_dt_array \<noteq> shape (self_It_array self) \<or> \<not> 0 < t_dt - self_t self)) \<and>
   (\<forall>st. update self t_dt It_dt_array = Some (Inl (AssertionError, st)) \<longrightarrow> st = self) \<and>
   (wf_sim self \<longrightarrow>
      ((\<exists>self' evs. update self t_dt It_dt_array = Some (Inr (self', evs))) \<longleftrightarrow>
         \<not> (shape It_dt_array \<noteq> shape (self_It_array self) \<or> \<not> 0 < t_dt - self_t self)))"
proof -
  let ?bad = "shape It_dt_array \<noteq> shape (self_It_array self) \<or> \<not> 0 < t_dt - self_t self"
  have rejected: "update self t_dt It_dt_array = Some (Inl (AssertionError, self))" if "?bad"
    using that by (auto simp: update_def Let_def)
  have passed: "update self t_dt It_dt_array \<noteq> Some (Inl (AssertionError, st))" if "\<not> ?bad" for st
  proof
    assume a: "update self t_dt It_dt_array = Some (Inl (AssertionError, st))"
    with that have
      "update_pixels self (t_dt - self_t self) It_dt_array (all_pixels self) [] =
         Some (Inl (AssertionError, st))"
      by (auto simp: update_def Let_def split: option.splits sum.splits)
    from update_pixels_error[OF this] show False by simp
  qed
  have unchanged: "st = self" if "update self t_dt It_dt_array = Some (Inl (AssertionError, st))" for st
  proof (cases "?bad")
    case True
    from rejected[OF True] that show ?thesis by simp
  next
    case False
    from passed[OF False, of st] that show ?thesis by simp
  qed
  have returns: "(\<exists>self' evs. update self t_dt It_dt_array = Some (Inr (self', evs))) \<longleftrightarrow> \<not> ?bad"
    if wf: "wf_sim self"
  proof (cases "?bad")
    case True
    from rejected[OF True] True show ?thesis by simp
  next
    case False
    then have "shape It_dt_array = shape (self_It_array self)" "0 < t_dt - self_t self" by simp_all
    from update_char[OF wf this] False show ?thesis by blast
  qed
  from rejected passed unchanged returns show ?thesis by blast
qed

theorem update_rejects_iff_contract_violated_witness:
  "wf_sim (sim_1x1 (15 / 100) 0 0 0) \<and>
   (\<exists>st. update (sim_1x1 (15 / 100) 0 0 0) 0 (full (1, 1) (1 / 2)) = Some (Inl (AssertionError, st))) \<and>
   (\<exists>st. update (sim_1x1 (15 / 100) 0 0 0) 1 (full (2, 1) (1 / 2)) = Some (Inl (AssertionError, st))) \<and>
   (\<exists>self' evs. update (sim_1x1 (15 / 100) 0 0 0) 1 (full (1, 1) (1 / 2)) = Some (Inr (self', evs)))"
proof -
  let ?s = "sim_1x1 (15 / 100) 0 0 0"
  have late: "shape (full (1, 1) (1 / 2)) \<noteq> shape (self_It_array ?s) \<or> \<not> 0 < 0 - self_t ?s"
    by (simp add: sim_1x1_simps)
  have wide: "shape (full (2, 1) (1 / 2)) \<noteq> shape (self_It_array ?s) \<or> \<not> 0 < 1 - self_t ?s"
    by (simp add: sim_1x1_simps full_simps)
  have good: "\<not> (shape (full (1, 1) (1 / 2)) \<noteq> shape (self_It_array ?s) \<or> \<not> 0 < 1 - self_t ?s)"
    by (simp add: sim_1x1_simps full_simps)
  from update_rejects_iff_contract_violated[of ?s 0 "full (1, 1) (1 / 2)"] late
  have a: "\<exists>st. update ?s 0 (full (1, 1) (1 / 2)) = Some (Inl (AssertionError, st))" by blast
  from update_rejects_iff_contract_violated[of ?s 1 "full (2, 1) (1 / 2)"] wide
  have b: "\<exists>st. update ?s 1 (full (2, 1) (1 / 2)) = Some (Inl (AssertionError, st))" by blast
  from update_rejects_iff_contract_violated[of ?s 1 "full (1, 1) (1 / 2)"] good example_1x1_pre(1)
  have c: "\<exists>self' evs. update ?s 1 (full (1, 1) (1 / 2)) = Some (Inr (self', evs))" by blast
  from example_1x1_pre(1) a b c show ?thesis by blast
qed

text \<open>
  C9. One iteration of the driver loop whose call of \<^verbatim>\<open>update\<close> returns: if the
  frame's timestamp minus \<^verbatim>\<open>last_pub_event_timestamp\<close> exceeds the interval, the
  buffer with the new events is sorted by timestamp, the sorted batch is published
  stamped with the frame's timestamp, the buffer is emptied and
  \<^verbatim>\<open>last_pub_event_timestamp\<close> becomes the frame's timestamp; otherwise the buffer
  (with the new events) is kept and nothing is published.
\<close>

theorem driver_publishes_sorted_batches:
  assumes "update (sim d) timestamp img = Some (Inr (self', current_events))"
  shows "\<exists>d'. frame_step timestamp img delta_event cam write_to_bag d = Some (Inr d') \<and>
           sim d' = self' \<and>
           (timestamp - last_pub_event_timestamp d > delta_event \<longrightarrow>
              events d' = [] \<and>
              last_pub_event_timestamp d' = timestamp \<and>
              (\<exists>batch. event_pub d' = event_pub d @ [batch] \<and>
                 stamp batch = timestamp \<and>
                 ea_events batch = sort_key e_ts (events d @ current_events) \<and>
                 sorted (map e_ts (ea_events batch)) \<and>
                 mset (ea_events batch) = mset (events d @ current_events) \<and>
                 bag d' = (if write_to_bag then bag d @ [(timestamp, batch)] else bag d))) \<and>
           (\<not> timestamp - last_pub_event_timestamp d > delta_event \<longrightarrow>
              events d' = events d @ current_events \<and>
              last_pub_event_timestamp d' = last_pub_event_timestamp d \<and>
              event_pub d' = event_pub d \<and> bag d' = bag d)"
  using assms
  by (simp add: frame_step_def publish_events_def Let_def)

theorem driver_publishes_sorted_batches_witness:
  "\<exists>d'. frame_step 1 (full (1, 1) 0) (1 / 300) (1, 1) False example_driver = Some (Inr d') \<and>
      sim d' = sim_1x1 (15 / 100) 0 0 1 \<and>
      events d' = [] \<and>
      last_pub_event_timestamp d' = 1 \<and>
      (\<exists>batch. event_pub d' = event_pub example_driver @ [batch] \<and>
         stamp batch = 1 \<and>
         ea_events batch = [make_event 0 0 (3 / 10) True, make_event 0 0 (9 / 10) True])"
proof -
  have upd: "update (sim example_driver) 1 (full (1, 1) 0) = Some (Inr (sim_1x1 (15 / 100) 0 0 1, []))"
    using update_1x1_same by (simp add: example_driver_def)
  have due: "1 - last_pub_event_timestamp example_driver > (1 / 300 :: real)"
    by (simp add: example_driver_def)
  have srt: "sort_key e_ts (events example_driver @ []) =
      [make_event 0 0 (3 / 10) True, make_event 0 0 (9 / 10) True]"
    by (simp add: example_driver_def make_event_def)
  from driver_publishes_sorted_batches[OF upd, of "1 / 300" "(1, 1)" False] due
  obtain d' batch where
    "frame_step 1 (full (1, 1) 0) (1 / 300) (1, 1) False example_driver = Some (Inr d')"
    "sim d' = sim_1x1 (15 / 100) 0 0 1" "events d' = []" "last_pub_event_timestamp d' = 1"
    "event_pub d' = event_pub example_driver @ [batch]" "stamp batch = 1"
    "ea_events batch = sort_key e_ts (events example_driver @ [])"
    by blast
  with srt show ?thesis by auto
qed



end
